theory Spec2Isabelle
  imports Main
begin

section \<open>Data model of \<^verbatim>\<open>pi/cloud_sync.py\<close>\<close>

text \<open>
  A snapshot is a Python dictionary with string keys and JSON values. The dictionary is an
  association list read with \<open>map_of\<close> (\<^verbatim>\<open>data.get\<close>). Numbers are restricted to
  integers; floating-point signal values are not modelled. \<^verbatim>\<open>json.dumps\<close> followed by
  \<^verbatim>\<open>json.loads\<close> is the identity on these values, so the \<^verbatim>\<open>data\<close> column holds the
  snapshot itself.
\<close>

datatype jval = JNull | JInt int | JStr string | JObj "(string \<times> jval) list"

type_synonym snapshot = "(string \<times> jval) list"

text \<open>
  One row of the table \<^verbatim>\<open>pending_uploads\<close>:
  \<^verbatim>\<open>id INTEGER PRIMARY KEY AUTOINCREMENT, timestamp TEXT NOT NULL, data TEXT NOT NULL,
  created_at REAL DEFAULT (strftime('%s', 'now'))\<close>.
  \<open>created_at\<close> is the wall clock in whole seconds at the time of the insert.
\<close>

record row =
  rid :: int
  timestamp :: string
  data :: snapshot
  created_at :: int

text \<open>
  \<^verbatim>\<open>OfflineStorage\<close>: the table (rows in insertion order), the counter SQLite keeps for
  \<^verbatim>\<open>AUTOINCREMENT\<close> (the largest id handed out so far) and the attribute
  \<^verbatim>\<open>max_storage_bytes\<close>.
\<close>

record storage =
  rows :: "row list"
  last_id :: int
  max_storage_bytes :: int

text \<open>\<^verbatim>\<open>CloudSync\<close>: the configured URL, the storage it owns and the flag of the background loop.\<close>

record cloud_sync =
  webapp_url :: string
  offline_storage :: storage
  sync_running :: bool

section \<open>The environment\<close>

text \<open>
  Everything the code reads from outside is a field of \<open>world\<close>, one value per call:
  the two clocks, whether an SQL statement raises, what the file system reports for the
  database file when the table holds the given rows, the connectivity probe and the reply
  of the web app to a batch.
\<close>

datatype stmt = Insert | Count | Select | Delete | Evict

datatype fs_stat = StatRaises | NoFile | FileSize int

datatype http_outcome = ReplyOk | ReplyNotOk | RaisesHTTPError | RaisesOther

datatype error = SqliteError | OSError

record world =
  now_iso :: string
  now_epoch :: int
  sql_raises :: "stmt \<Rightarrow> bool"
  st_size :: "row list \<Rightarrow> fs_stat"
  online :: bool
  http :: "snapshot list \<Rightarrow> http_outcome"

section \<open>\<^verbatim>\<open>OfflineStorage\<close>\<close>

text \<open>\<^verbatim>\<open>OfflineStorage.__init__\<close>: \<^verbatim>\<open>max_storage_bytes = max_storage_mb * 1024 * 1024\<close>, empty table.\<close>

definition init_storage :: "int \<Rightarrow> storage" where
  "init_storage max_storage_mb =
     \<lparr>rows = [], last_id = 0, max_storage_bytes = max_storage_mb * 1024 * 1024\<rparr>"

text \<open>Decimal rendering of an integer, as SQLite's TEXT affinity stores an integer parameter.\<close>

fun digits :: "nat \<Rightarrow> string" where
  "digits n = (if n < 10 then [char_of (48 + n)] else digits (n div 10) @ [char_of (48 + n mod 10)])"

definition decimal :: "int \<Rightarrow> string" where
  "decimal i = (if i < 0 then CHR ''-'' # digits (nat (- i)) else digits (nat i))"

text \<open>
  Binding a Python value to the \<^verbatim>\<open>timestamp TEXT NOT NULL\<close> column: a string is stored
  as it is, an integer as its decimal text, \<^verbatim>\<open>None\<close> violates \<^verbatim>\<open>NOT NULL\<close> and a
  dictionary is not a supported parameter type; the last two raise.
\<close>

fun bind_text :: "jval \<Rightarrow> error + string" where
  "bind_text (JStr s) = Inr s"
| "bind_text (JInt i) = Inr (decimal i)"
| "bind_text JNull = Inl SqliteError"
| "bind_text (JObj kv) = Inl SqliteError"

text \<open>
  The \<^verbatim>\<open>INSERT\<close> and \<^verbatim>\<open>commit\<close> inside \<^verbatim>\<open>store\<close>. The timestamp is
  \<^verbatim>\<open>data.get('timestamp', datetime.now().isoformat())\<close>. A statement that raises leaves
  the table as it was (the connection is closed without a commit).
\<close>

definition insert_row :: "world \<Rightarrow> storage \<Rightarrow> snapshot \<Rightarrow> error + storage" where
  "insert_row w s d =
     (case bind_text (case map_of d ''timestamp'' of None \<Rightarrow> JStr (now_iso w) | Some v \<Rightarrow> v) of
        Inl e \<Rightarrow> Inl e
      | Inr ts \<Rightarrow>
          if sql_raises w Insert then Inl SqliteError
          else Inr (s\<lparr>rows := rows s @
                        [\<lparr>rid = last_id s + 1, timestamp = ts, data = d, created_at = now_epoch w\<rparr>],
                      last_id := last_id s + 1\<rparr>))"

text \<open>
  \<^verbatim>\<open>ORDER BY created_at ASC\<close>: a stable sort on \<open>created_at\<close>, rows of the same second in
  insertion order. \<^verbatim>\<open>LIMIT n\<close>: the first \<open>n\<close> rows, all of them when \<open>n\<close> is negative.
\<close>

definition oldest_first :: "row list \<Rightarrow> row list" where
  "oldest_first rs = sort_key created_at rs"

definition sql_limit :: "int \<Rightarrow> 'a list \<Rightarrow> 'a list" where
  "sql_limit n xs = (if n < 0 then xs else take (nat n) xs)"

text \<open>\<^verbatim>\<open>DELETE FROM pending_uploads WHERE id IN (...)\<close>.\<close>

definition delete_ids :: "int list \<Rightarrow> row list \<Rightarrow> row list" where
  "delete_ids ids rs = filter (\<lambda>r. rid r \<notin> set ids) rs"

text \<open>
  \<^verbatim>\<open>_enforce_storage_limit\<close>: everything is inside \<^verbatim>\<open>try: ... except: pass\<close>, so a
  failing \<^verbatim>\<open>stat\<close> or \<^verbatim>\<open>DELETE\<close> leaves the table as it was.
\<close>

definition enforce_storage_limit :: "world \<Rightarrow> storage \<Rightarrow> storage" where
  "enforce_storage_limit w s =
     (case st_size w (rows s) of
        StatRaises \<Rightarrow> s
      | NoFile \<Rightarrow> s
      | FileSize n \<Rightarrow>
          if n > max_storage_bytes s then
            (if sql_raises w Evict then s
             else s\<lparr>rows := delete_ids (map rid (sql_limit 100 (oldest_first (rows s)))) (rows s)\<rparr>)
          else s)"

text \<open>\<^verbatim>\<open>store\<close>: insert, then enforce the limit; any exception gives \<^verbatim>\<open>False\<close>.\<close>

definition store :: "world \<Rightarrow> storage \<Rightarrow> snapshot \<Rightarrow> bool \<times> storage" where
  "store w s d =
     (case insert_row w s d of
        Inl e \<Rightarrow> (False, s)
      | Inr s' \<Rightarrow> (True, enforce_storage_limit w s'))"

text \<open>\<^verbatim>\<open>get_pending_count\<close>: \<^verbatim>\<open>SELECT COUNT(*)\<close>, 0 on any exception.\<close>

definition get_pending_count :: "world \<Rightarrow> storage \<Rightarrow> int \<times> storage" where
  "get_pending_count w s = (if sql_raises w Count then 0 else int (length (rows s)), s)"

text \<open>\<^verbatim>\<open>get_pending_batch\<close>: the pairs \<^verbatim>\<open>(id, data)\<close>, the empty list on any exception.\<close>

definition get_pending_batch :: "world \<Rightarrow> int \<Rightarrow> storage \<Rightarrow> (int \<times> snapshot) list \<times> storage" where
  "get_pending_batch w batch_size s =
     (if sql_raises w Select then []
      else map (\<lambda>r. (rid r, data r)) (sql_limit batch_size (oldest_first (rows s))), s)"

text \<open>\<^verbatim>\<open>mark_uploaded\<close>: nothing for an empty list; an exception of the delete is logged.\<close>

definition mark_uploaded :: "world \<Rightarrow> int list \<Rightarrow> storage \<Rightarrow> storage" where
  "mark_uploaded w record_ids s =
     (if record_ids = [] then s
      else if sql_raises w Delete then s
      else s\<lparr>rows := delete_ids record_ids (rows s)\<rparr>)"

text \<open>
  Python's \<^verbatim>\<open>round(x, 2)\<close> on \<^verbatim>\<open>x = n / (1024 * 1024)\<close>: the quotient is exact in
  binary floating point, and \<^verbatim>\<open>round\<close> rounds it to the nearest hundredth, a tie to the
  even one. The float returned is represented by its number of hundredths.
\<close>

definition round_half_even :: "int \<Rightarrow> int \<Rightarrow> int" where
  "round_half_even a b =
     (let q = a div b; r = a mod b
      in if 2 * r < b then q else if 2 * r > b then q + 1 else if even q then q else q + 1)"

definition mb_hundredths :: "int \<Rightarrow> int" where
  "mb_hundredths n = round_half_even (n * 100) (1024 * 1024)"

datatype pyval = PInt int | PBool bool | PHundredths int

text \<open>
  \<^verbatim>\<open>get_storage_stats\<close>: \<^verbatim>\<open>db_path.stat().st_size if db_path.exists() else 0\<close> is
  evaluated first and outside any \<^verbatim>\<open>try\<close>, so an exception of \<^verbatim>\<open>exists\<close> or
  \<^verbatim>\<open>stat\<close> leaves the method.
\<close>

definition stats_dict :: "world \<Rightarrow> storage \<Rightarrow> int \<Rightarrow> (string \<times> pyval) list" where
  "stats_dict w s db_size =
     [(''pending_records'', PInt (fst (get_pending_count w s))),
      (''storage_used_mb'', PHundredths (mb_hundredths db_size)),
      (''storage_limit_mb'', PHundredths (mb_hundredths (max_storage_bytes s)))]"

definition get_storage_stats :: "world \<Rightarrow> storage \<Rightarrow> (error + (string \<times> pyval) list) \<times> storage" where
  "get_storage_stats w s =
     (case st_size w (rows s) of
        StatRaises \<Rightarrow> (Inl OSError, s)
      | NoFile \<Rightarrow> (Inr (stats_dict w s 0), s)
      | FileSize n \<Rightarrow> (Inr (stats_dict w s n), s))"

section \<open>\<^verbatim>\<open>CloudSync\<close>\<close>

text \<open>\<^verbatim>\<open>is_online\<close>: the probe; an exception of the request is the answer \<^verbatim>\<open>False\<close>.\<close>

definition is_online :: "world \<Rightarrow> bool" where
  "is_online w = online w"

definition webapp_configured :: "cloud_sync \<Rightarrow> bool" where
  "webapp_configured c = (webapp_url c \<noteq> [] \<and> webapp_url c \<noteq> ''YOUR_WEBAPP_URL_HERE'')"

text \<open>
  \<^verbatim>\<open>_upload_to_webapp\<close>: \<^verbatim>\<open>True\<close> for an empty list, \<^verbatim>\<open>False\<close> without a configured
  URL, otherwise \<^verbatim>\<open>True\<close> exactly when the reply has \<^verbatim>\<open>status == 'ok'\<close>; both exception
  handlers return \<^verbatim>\<open>False\<close>.
\<close>

definition upload_to_webapp :: "world \<Rightarrow> cloud_sync \<Rightarrow> snapshot list \<Rightarrow> bool" where
  "upload_to_webapp w c data_list =
     (if data_list = [] then True
      else if \<not> webapp_configured c then False
      else (case http w data_list of
              ReplyOk \<Rightarrow> True
            | ReplyNotOk \<Rightarrow> False
            | RaisesHTTPError \<Rightarrow> False
            | RaisesOther \<Rightarrow> False))"

definition store_offline :: "world \<Rightarrow> cloud_sync \<Rightarrow> snapshot \<Rightarrow> bool \<times> cloud_sync" where
  "store_offline w c d =
     (case store w (offline_storage c) d of (ok, s') \<Rightarrow> (ok, c\<lparr>offline_storage := s'\<rparr>))"

text \<open>\<^verbatim>\<open>upload\<close>.\<close>

definition upload :: "world \<Rightarrow> cloud_sync \<Rightarrow> snapshot \<Rightarrow> bool \<times> cloud_sync" where
  "upload w c d =
     (if \<not> is_online w then store_offline w c d
      else if upload_to_webapp w c [d] then (True, c)
      else store_offline w c d)"

text \<open>
  One pass through the body of the \<^verbatim>\<open>while True\<close> loop of \<^verbatim>\<open>sync_offline_data\<close>: the
  result says whether the loop goes on, the count uploaded so far and the new state.
\<close>

definition sync_iteration :: "world \<Rightarrow> cloud_sync \<Rightarrow> int \<Rightarrow> bool \<times> int \<times> cloud_sync" where
  "sync_iteration w c uploaded =
     (case get_pending_batch w 50 (offline_storage c) of (batch, s1) \<Rightarrow>
        if batch = [] then (False, uploaded, c\<lparr>offline_storage := s1\<rparr>)
        else
          let record_ids = map fst batch; data_list = map snd batch
          in if upload_to_webapp w c data_list
             then (True, uploaded + int (length record_ids),
                   c\<lparr>offline_storage := mark_uploaded w record_ids s1\<rparr>)
             else (False, uploaded, c\<lparr>offline_storage := s1\<rparr>))"

text \<open>
  The loop itself. Pass \<open>i\<close> runs in the world \<open>ws i\<close>. The loop has no bound in the
  source, so it is a partial function: \<open>None\<close> is a loop that never ends.
\<close>

partial_function (option) sync_loop ::
  "(nat \<Rightarrow> world) \<Rightarrow> nat \<Rightarrow> cloud_sync \<Rightarrow> int \<Rightarrow> (int \<times> cloud_sync) option" where
  "sync_loop ws i c uploaded =
     (case sync_iteration (ws i) c uploaded of
        (go_on, uploaded', c') \<Rightarrow>
          if go_on then sync_loop ws (Suc i) c' uploaded' else Some (uploaded', c'))"

text \<open>\<^verbatim>\<open>sync_offline_data\<close>: the two early returns in the world \<open>w0\<close>, then the loop.\<close>

definition sync_offline_data ::
  "world \<Rightarrow> (nat \<Rightarrow> world) \<Rightarrow> cloud_sync \<Rightarrow> (int \<times> cloud_sync) option" where
  "sync_offline_data w0 ws c =
     (if \<not> is_online w0 then Some (0, c)
      else case get_pending_count w0 (offline_storage c) of (pending, s1) \<Rightarrow>
        if pending = 0 then Some (0, c\<lparr>offline_storage := s1\<rparr>)
        else sync_loop ws 0 (c\<lparr>offline_storage := s1\<rparr>) 0)"

text \<open>
  \<^verbatim>\<open>get_status\<close>: the statistics first, then the probe; the dictionary lists
  \<^verbatim>\<open>online\<close>, \<^verbatim>\<open>webapp_configured\<close> and the entries of the statistics.
\<close>

definition get_status :: "world \<Rightarrow> cloud_sync \<Rightarrow> (error + (string \<times> pyval) list) \<times> cloud_sync" where
  "get_status w c =
     (case get_storage_stats w (offline_storage c) of
        (Inl e, s1) \<Rightarrow> (Inl e, c\<lparr>offline_storage := s1\<rparr>)
      | (Inr stats, s1) \<Rightarrow>
          (Inr ([(''online'', PBool (is_online w)),
                 (''webapp_configured'', PBool (webapp_configured c))] @ stats),
           c\<lparr>offline_storage := s1\<rparr>))"

section \<open>Concrete environments and inputs\<close>

text \<open>
  A world where every SQL statement is executed and the web app accepts what it is sent;
  the probe and the clock are given. The database file has the 12288 bytes of the three
  pages SQLite allocates for this schema (the table, its \<^verbatim>\<open>AUTOINCREMENT\<close> counter and
  the schema itself): a few short rows fit in them, and a \<^verbatim>\<open>DELETE\<close> does not shrink
  the file.
\<close>

definition sim_world :: "bool \<Rightarrow> int \<Rightarrow> world" where
  "sim_world on t =
     \<lparr>now_iso = ''2024-05-01T12:00:00'', now_epoch = t, sql_raises = (\<lambda>_. False),
      st_size = (\<lambda>_. FileSize 12288), online = on, http = (\<lambda>_. ReplyOk)\<rparr>"

definition snap :: "int \<Rightarrow> snapshot" where
  "snap k = [(''timestamp'', JStr ''2024-05-01T11:59:30''),
             (''signals'', JObj [(''EngineSpeed'', JInt k)])]"

definition fresh_sync :: "int \<Rightarrow> cloud_sync" where
  "fresh_sync max_bytes =
     \<lparr>webapp_url = ''https://script.example/exec'',
      offline_storage = \<lparr>rows = [], last_id = 0, max_storage_bytes = max_bytes\<rparr>,
      sync_running = False\<rparr>"

text \<open>A run of \<^verbatim>\<open>store\<close> calls and a run of \<^verbatim>\<open>upload\<close> calls, each in its own world.\<close>

fun store_all :: "(world \<times> snapshot) list \<Rightarrow> storage \<Rightarrow> storage" where
  "store_all [] s = s"
| "store_all ((w, d) # es) s = store_all es (snd (store w s d))"

fun upload_all :: "(world \<times> snapshot) list \<Rightarrow> cloud_sync \<Rightarrow> cloud_sync" where
  "upload_all [] c = c"
| "upload_all ((w, d) # es) c = upload_all es (snd (upload w c d))"

text \<open>
  A run of \<^verbatim>\<open>store\<close> calls in which every insert is committed and no limit check
  deletes a row.
\<close>

fun all_kept :: "(world \<times> snapshot) list \<Rightarrow> storage \<Rightarrow> bool" where
  "all_kept [] s = True"
| "all_kept ((w, d) # es) s =
     (case insert_row w s d of
        Inl e \<Rightarrow> False
      | Inr s' \<Rightarrow> enforce_storage_limit w s' = s' \<and> all_kept es s')"

text \<open>A run of \<^verbatim>\<open>store\<close> calls every one of which returns \<^verbatim>\<open>True\<close>.\<close>

fun all_stored :: "(world \<times> snapshot) list \<Rightarrow> storage \<Rightarrow> bool" where
  "all_stored [] s = True"
| "all_stored ((w, d) # es) s = (fst (store w s d) \<and> all_stored es (snd (store w s d)))"

text \<open>
  The calls of a run in their order, each snapshot with the id \<^verbatim>\<open>AUTOINCREMENT\<close> gives
  it when the counter stands at \<open>n\<close> before the run and every insert is committed.
\<close>

fun numbered :: "int \<Rightarrow> (world \<times> snapshot) list \<Rightarrow> (int \<times> snapshot) list" where
  "numbered n [] = []"
| "numbered n ((w, d) # es) = (n + 1, d) # numbered (n + 1) es"

text \<open>The primary key: ids are distinct and none is above the \<^verbatim>\<open>AUTOINCREMENT\<close> counter.\<close>

definition ids_ok :: "storage \<Rightarrow> bool" where
  "ids_ok s = (distinct (map rid (rows s)) \<and> list_all (\<lambda>r. rid r \<le> last_id s) (rows s))"

definition three_enqueues :: "(world \<times> snapshot) list" where
  "three_enqueues =
     [(sim_world False 10, snap 1), (sim_world False 10, snap 2), (sim_world False 12, snap 3)]"

text \<open>Snapshot \<open>k\<close> is handed to \<^verbatim>\<open>upload\<close> at second \<open>1000 + k\<close>, the probe offline.\<close>

definition offline_run :: "int list \<Rightarrow> (world \<times> snapshot) list" where
  "offline_run ks = map (\<lambda>k. (sim_world False (1000 + k), snap k)) ks"

definition after15 :: cloud_sync where
  "after15 = upload_all (offline_run [1, 2, 3, 4, 5, 6, 7, 8, 9, 10, 11, 12, 13, 14, 15])
               (fresh_sync 1000)"

text \<open>A state with two queued rows, and worlds whose web app rejects or whose \<^verbatim>\<open>stat\<close> raises.\<close>

definition queued2 :: cloud_sync where
  "queued2 = (fresh_sync 1000000)\<lparr>offline_storage :=
      \<lparr>rows = [\<lparr>rid = 1, timestamp = ''2024-05-01T11:59:30'', data = snap 1, created_at = 5\<rparr>,
               \<lparr>rid = 2, timestamp = ''2024-05-01T11:59:30'', data = snap 2, created_at = 6\<rparr>],
       last_id = 2, max_storage_bytes = 1000000\<rparr>\<rparr>"


definition stat_fails :: world where
  "stat_fails = (sim_world True 5)\<lparr>st_size := (\<lambda>_. StatRaises)\<rparr>"


definition grown_file :: world where
  "grown_file = (sim_world False 7)\<lparr>st_size := (\<lambda>_. FileSize 600000000)\<rparr>"

definition evict_fails :: world where
  "evict_fails = grown_file\<lparr>sql_raises := (\<lambda>q. q = Evict)\<rparr>"

definition clock_set_back :: storage where
  "clock_set_back =
     \<lparr>rows = \<lparr>rid = 1, timestamp = ''2024-05-01T11:59:30'', data = snap 1, created_at = 500\<rparr>
               # map (\<lambda>k. \<lparr>rid = int k + 1, timestamp = ''2024-05-01T11:59:30'',
                           data = snap (int k + 1), created_at = int k\<rparr>) [1..<101],
      last_id = 101, max_storage_bytes = 500 * 1024 * 1024\<rparr>"

definition no_timestamp :: snapshot where
  "no_timestamp = [(''signals'', JObj [(''FuelLevel'', JInt 75)])]"

section \<open>Auxiliary facts\<close>

lemma delete_victims:
  assumes "distinct (map rid rs)" and "set victims \<subseteq> set rs"
  shows "delete_ids (map rid victims) rs = filter (\<lambda>r. r \<notin> set victims) rs"
proof -
  have inj: "inj_on rid (set rs)"
    using assms(1) by (simp add: distinct_map)
  have "filter (\<lambda>r. rid r \<notin> set (map rid victims)) rs = filter (\<lambda>r. r \<notin> set victims) rs"
  proof (rule filter_cong [OF refl])
    fix r assume "r \<in> set rs"
    then show "(rid r \<notin> set (map rid victims)) = (r \<notin> set victims)"
      using inj assms(2) by (auto dest: inj_onD)
  qed
  then show ?thesis
    by (simp add: delete_ids_def)
qed

lemma filter_out_prefix:
  assumes "distinct rs"
  shows "filter (\<lambda>r. r \<notin> set (take n rs)) rs = drop n rs"
proof -
  let ?P = "\<lambda>r. r \<notin> set (take n rs)"
  have disj: "set (take n rs) \<inter> set (drop n rs) = {}"
    using assms by (metis append_take_drop_id distinct_append)
  have split: "filter ?P rs = filter ?P (take n rs) @ filter ?P (drop n rs)"
    by (metis append_take_drop_id filter_append)
  have "filter ?P (take n rs) = []"
    by (simp add: filter_empty_conv)
  moreover have "filter ?P (drop n rs) = drop n rs"
    using disj by (intro filter_True) auto
  ultimately show ?thesis
    using split by simp
qed

lemma delete_prefix:
  assumes "distinct (map rid rs)"
  shows "delete_ids (map rid (take n rs)) rs = drop n rs"
proof -
  have "distinct rs"
    using assms by (simp add: distinct_map)
  then show ?thesis
    using delete_victims [OF assms set_take_subset [of n rs]] filter_out_prefix [of rs n]
    by simp
qed

lemma ids_ok_insert:
  assumes "ids_ok s" and "insert_row w s d = Inr s'"
  shows "ids_ok s'"
  using assms
  by (fastforce simp: insert_row_def ids_ok_def list_all_iff split: sum.splits if_splits)

lemma ids_ok_delete: "ids_ok s \<Longrightarrow> ids_ok (s\<lparr>rows := delete_ids ids (rows s)\<rparr>)"
  by (auto simp: ids_ok_def delete_ids_def distinct_map_filter list_all_iff)

lemma ids_ok_enforce: "ids_ok s \<Longrightarrow> ids_ok (enforce_storage_limit w s)"
  using ids_ok_delete [of s]
  by (simp add: enforce_storage_limit_def split: fs_stat.splits)

lemma ids_ok_store: "ids_ok s \<Longrightarrow> ids_ok (snd (store w s d))"
  using ids_ok_insert [of s w d] ids_ok_enforce
  by (simp add: store_def split: sum.splits)

lemma ids_ok_init: "ids_ok (init_storage mb)"
  by (simp add: ids_ok_def init_storage_def)

lemma ids_ok_mark_uploaded: "ids_ok s \<Longrightarrow> ids_ok (mark_uploaded w ids s)"
  using ids_ok_delete [of s ids] by (simp add: mark_uploaded_def)

lemma oldest_first_sorted: "sorted (map created_at rs) \<Longrightarrow> oldest_first rs = rs"
  by (simp add: oldest_first_def sort_key_id_if_sorted)

lemma enforce_drops_prefix:
  assumes "distinct (map rid (rows s))" and "sorted (map created_at (rows s))"
  shows "\<exists>j. enforce_storage_limit w s = s\<lparr>rows := drop j (rows s)\<rparr>"
proof (cases "enforce_storage_limit w s = s")
  case True
  then have "enforce_storage_limit w s = s\<lparr>rows := drop 0 (rows s)\<rparr>" by simp
  then show ?thesis by blast
next
  case False
  then have "enforce_storage_limit w s
      = s\<lparr>rows := delete_ids (map rid (sql_limit 100 (oldest_first (rows s)))) (rows s)\<rparr>"
    by (auto simp: enforce_storage_limit_def split: fs_stat.splits if_splits)
  then have "enforce_storage_limit w s = s\<lparr>rows := drop 100 (rows s)\<rparr>"
    using delete_prefix [OF assms(1), of 100] oldest_first_sorted [OF assms(2)]
    by (simp add: sql_limit_def)
  then show ?thesis by blast
qed

lemma store_step:
  assumes "fst (store w s d)" and "ids_ok s"
    and "sorted (map created_at (rows s) @ [now_epoch w])"
  shows "\<exists>j. j \<le> Suc (length (rows s))
           \<and> map (\<lambda>r. (rid r, data r)) (rows (snd (store w s d)))
               = drop j (map (\<lambda>r. (rid r, data r)) (rows s) @ [(last_id s + 1, d)])
           \<and> map created_at (rows (snd (store w s d)))
               = drop j (map created_at (rows s) @ [now_epoch w])
           \<and> last_id (snd (store w s d)) = last_id s + 1"
proof -
  from assms(1) obtain s' where ins: "insert_row w s d = Inr s'"
    by (auto simp: store_def split: sum.splits)
  then have st: "snd (store w s d) = enforce_storage_limit w s'"
    by (simp add: store_def)
  have shape: "map (\<lambda>r. (rid r, data r)) (rows s') = map (\<lambda>r. (rid r, data r)) (rows s) @ [(last_id s + 1, d)]"
    "map created_at (rows s') = map created_at (rows s) @ [now_epoch w]"
    "last_id s' = last_id s + 1"
    using ins by (auto simp: insert_row_def split: sum.splits if_splits)
  have "ids_ok s'"
    using ids_ok_insert [OF assms(2) ins] .
  then have "distinct (map rid (rows s'))"
    by (simp add: ids_ok_def)
  moreover have "sorted (map created_at (rows s'))"
    using assms(3) shape(2) by simp
  ultimately obtain j where j: "enforce_storage_limit w s' = s'\<lparr>rows := drop j (rows s')\<rparr>"
    using enforce_drops_prefix by blast
  let ?j = "min j (Suc (length (rows s)))"
  have len: "length (rows s') = Suc (length (rows s))"
    using shape(2) by (metis length_append_singleton length_map)
  have dr: "drop j (rows s') = drop ?j (rows s')"
    using len by (simp add: min_def)
  have R: "rows (snd (store w s d)) = drop ?j (rows s')"
    using st j dr by simp
  have "map (\<lambda>r. (rid r, data r)) (rows (snd (store w s d)))
          = drop ?j (map (\<lambda>r. (rid r, data r)) (rows s'))"
    unfolding R by (rule drop_map [symmetric])
  then have v: "map (\<lambda>r. (rid r, data r)) (rows (snd (store w s d)))
          = drop ?j (map (\<lambda>r. (rid r, data r)) (rows s) @ [(last_id s + 1, d)])"
    by (simp only: shape(1))
  have "map created_at (rows (snd (store w s d))) = drop ?j (map created_at (rows s'))"
    unfolding R by (rule drop_map [symmetric])
  then have c: "map created_at (rows (snd (store w s d)))
          = drop ?j (map created_at (rows s) @ [now_epoch w])"
    by (simp only: shape(2))
  have l: "last_id (snd (store w s d)) = last_id s + 1"
    using st j shape(3) by simp
  have "?j \<le> Suc (length (rows s))"
    by simp
  then show ?thesis
    using v c l by blast
qed

lemma drop_within: "j \<le> length xs \<Longrightarrow> drop j xs @ ys = drop j (xs @ ys)"
  by simp

lemma store_all_suffix:
  assumes "all_stored es s" and "ids_ok s"
    and "sorted (map created_at (rows s) @ map (\<lambda>e. now_epoch (fst e)) es)"
  shows "\<exists>k. map (\<lambda>r. (rid r, data r)) (rows (store_all es s))
               = drop k (map (\<lambda>r. (rid r, data r)) (rows s) @ numbered (last_id s) es)
           \<and> map created_at (rows (store_all es s))
               = drop k (map created_at (rows s) @ map (\<lambda>e. now_epoch (fst e)) es)"
  using assms
proof (induction es arbitrary: s)
  case Nil
  have "map (\<lambda>r. (rid r, data r)) (rows s) = drop 0 (map (\<lambda>r. (rid r, data r)) (rows s))"
    "map created_at (rows s) = drop 0 (map created_at (rows s))"
    by simp_all
  then show ?case by (intro exI [of _ 0]) simp
next
  case (Cons e es)
  obtain w d where e: "e = (w, d)" by (cases e)
  let ?s1 = "snd (store w s d)"
  let ?V = "\<lambda>r. (rid r, data r)"
  have st: "fst (store w s d)" and rest: "all_stored es ?s1"
    using Cons.prems(1) e by simp_all
  have srt: "sorted (map created_at (rows s) @ now_epoch w # map (\<lambda>e. now_epoch (fst e)) es)"
    using Cons.prems(3) e by simp
  then have "sorted (map created_at (rows s) @ [now_epoch w])"
    by (auto simp: sorted_append)
  from store_step [OF st Cons.prems(2) this]
  obtain j where j: "j \<le> Suc (length (rows s))"
    "map ?V (rows ?s1) = drop j (map ?V (rows s) @ [(last_id s + 1, d)])"
    "map created_at (rows ?s1) = drop j (map created_at (rows s) @ [now_epoch w])"
    "last_id ?s1 = last_id s + 1"
    by blast
  have "j \<le> length (map created_at (rows s) @ [now_epoch w])"
    using j(1) by simp
  from drop_within [OF this, of "map (\<lambda>e. now_epoch (fst e)) es"]
  have c1: "map created_at (rows ?s1) @ map (\<lambda>e. now_epoch (fst e)) es
      = drop j (map created_at (rows s) @ now_epoch w # map (\<lambda>e. now_epoch (fst e)) es)"
    unfolding j(3) by (simp only: append_assoc append_Cons append_Nil)
  have "sorted (map created_at (rows ?s1) @ map (\<lambda>e. now_epoch (fst e)) es)"
    unfolding c1 using srt by (rule sorted_wrt_drop)
  from Cons.IH [OF rest ids_ok_store [OF Cons.prems(2)] this]
  obtain k where k: "map ?V (rows (store_all es ?s1)) = drop k (map ?V (rows ?s1) @ numbered (last_id ?s1) es)"
    "map created_at (rows (store_all es ?s1)) = drop k (map created_at (rows ?s1) @ map (\<lambda>e. now_epoch (fst e)) es)"
    by blast
  have "j \<le> length (map ?V (rows s) @ [(last_id s + 1, d)])"
    using j(1) by simp
  from drop_within [OF this, of "numbered (last_id s + 1) es"]
  have v1: "map ?V (rows ?s1) @ numbered (last_id ?s1) es
      = drop j (map ?V (rows s) @ numbered (last_id s) ((w, d) # es))"
    unfolding j(2) j(4) by (simp only: append_assoc append_Cons append_Nil numbered.simps)
  have run: "store_all (e # es) s = store_all es ?s1"
    using e by simp
  have "map ?V (rows (store_all (e # es) s))
      = drop k (drop j (map ?V (rows s) @ numbered (last_id s) ((w, d) # es)))"
    unfolding run using k(1) by (simp only: v1)
  then have a: "map ?V (rows (store_all (e # es) s))
      = drop (k + j) (map ?V (rows s) @ numbered (last_id s) (e # es))"
    unfolding e by (simp only: drop_drop)
  have "map created_at (rows (store_all (e # es) s))
      = drop k (drop j (map created_at (rows s) @ now_epoch w # map (\<lambda>e. now_epoch (fst e)) es))"
    unfolding run using k(2) by (simp only: c1)
  then have "map created_at (rows (store_all (e # es) s))
      = drop (k + j) (map created_at (rows s) @ now_epoch w # map (\<lambda>e. now_epoch (fst e)) es)"
    by (simp only: drop_drop)
  then have b: "map created_at (rows (store_all (e # es) s))
      = drop (k + j) (map created_at (rows s) @ map (\<lambda>e. now_epoch (fst e)) (e # es))"
    unfolding e by (simp only: list.map fst_conv)
  show ?case
    using a b by blast
qed

lemma numbered_zip:
  "numbered n es = zip (map (\<lambda>k. n + int k) [1..<Suc (length es)]) (map snd es)"
proof (induction es arbitrary: n)
  case Nil
  then show ?case by simp
next
  case (Cons e es)
  obtain w d where e: "e = (w, d)" by (cases e)
  have "[1..<Suc (Suc (length es))] = 1 # map Suc [1..<Suc (length es)]"
    by (metis One_nat_def map_Suc_upt upt_conv_Cons zero_less_Suc Suc_less_eq)
  then show ?case
    using Cons.IH [of "n + 1"] e by (simp add: comp_def add.assoc)
qed

lemma insert_row_shape:
  assumes "insert_row w s d = Inr s'"
  shows "map rid (rows s') = map rid (rows s) @ [last_id s + 1]"
    and "map data (rows s') = map data (rows s) @ [d]"
    and "map created_at (rows s') = map created_at (rows s) @ [now_epoch w]"
    and "last_id s' = last_id s + 1"
    and "max_storage_bytes s' = max_storage_bytes s"
  using assms by (auto simp: insert_row_def split: sum.splits if_splits)

lemma all_kept_store:
  assumes "all_kept ((w, d) # es) s"
  shows "\<exists>s'. insert_row w s d = Inr s' \<and> store w s d = (True, s') \<and> all_kept es s'"
proof (cases "insert_row w s d")
  case (Inl e)
  with assms show ?thesis by simp
next
  case (Inr s')
  with assms show ?thesis by (simp add: store_def)
qed

lemma store_all_shape:
  "all_kept es s \<Longrightarrow>
     map (\<lambda>r. (rid r, data r)) (rows (store_all es s))
       = map (\<lambda>r. (rid r, data r)) (rows s) @ numbered (last_id s) es
   \<and> map created_at (rows (store_all es s))
       = map created_at (rows s) @ map (\<lambda>e. now_epoch (fst e)) es"
proof (induction es arbitrary: s)
  case Nil
  then show ?case by simp
next
  case (Cons e es)
  obtain w d where e: "e = (w, d)" by (cases e)
  from Cons.prems e have "all_kept ((w, d) # es) s" by simp
  from all_kept_store [OF this]
  obtain s' where s': "insert_row w s d = Inr s'" "store w s d = (True, s')" "all_kept es s'"
    by blast
  have "map (\<lambda>r. (rid r, data r)) (rows s') = map (\<lambda>r. (rid r, data r)) (rows s) @ [(last_id s + 1, d)]"
    using s'(1) by (auto simp: insert_row_def split: sum.splits if_splits)
  then show ?case
    using Cons.IH [OF s'(3)] insert_row_shape(3,4) [OF s'(1)] s'(2) e
    by simp
qed

lemma all_stored_length:
  "all_stored es s \<Longrightarrow> length (rows (store_all es s)) \<le> length (rows s) + length es"
proof (induction es arbitrary: s)
  case Nil
  then show ?case by simp
next
  case (Cons e es)
  obtain w d where e: "e = (w, d)" by (cases e)
  have enf: "length (rows (enforce_storage_limit w s')) \<le> length (rows s')" for s'
    by (simp add: enforce_storage_limit_def delete_ids_def split: fs_stat.splits)
  have "length (rows (snd (store w s d))) \<le> Suc (length (rows s))"
  proof (cases "insert_row w s d")
    case (Inl x)
    then show ?thesis by (simp add: store_def)
  next
    case (Inr s')
    then have "length (rows s') = Suc (length (rows s))"
      by (auto simp: insert_row_def split: sum.splits if_splits)
    then show ?thesis
      using enf [of s'] Inr by (simp add: store_def)
  qed
  moreover have "length (rows (store_all es (snd (store w s d))))
      \<le> length (rows (snd (store w s d))) + length es"
    using Cons.IH [of "snd (store w s d)"] Cons.prems e by simp
  ultimately show ?case
    using e by simp
qed

lemma upt_three: "[1..<Suc (length three_enqueues)] = [1, 2, 3]"
  by (simp add: three_enqueues_def upt_rec)





lemma length_remove_victims:
  assumes "distinct rs" and "set victims \<subseteq> set rs" and "distinct victims"
  shows "length (filter (\<lambda>r. r \<notin> set victims) rs) = length rs - length victims"
proof -
  have "set (filter (\<lambda>r. r \<notin> set victims) rs) = set rs - set victims"
    by auto
  then have "length (filter (\<lambda>r. r \<notin> set victims) rs) = card (set rs - set victims)"
    using assms(1) by (metis distinct_card distinct_filter)
  also have "\<dots> = card (set rs) - card (set victims)"
    using assms(2) by (simp add: card_Diff_subset)
  finally show ?thesis
    using assms(1,3) by (simp add: distinct_card)
qed

lemma oldest_first_props:
  "set (oldest_first rs) = set rs" "length (oldest_first rs) = length rs"
  "distinct (oldest_first rs) = distinct rs" "sorted (map created_at (oldest_first rs))"
  by (simp_all add: oldest_first_def)

lemma prefix_not_newer:
  assumes "sorted (map f xs)" and "x \<in> set (take n xs)" and "y \<in> set xs" and "y \<notin> set (take n xs)"
  shows "f x \<le> f y"
proof -
  have "y \<in> set (drop n xs)"
    using assms(3,4) by (metis Un_iff append_take_drop_id set_append)
  moreover have "sorted (map f (take n xs) @ map f (drop n xs))"
    using assms(1) by (metis append_take_drop_id map_append)
  ultimately show ?thesis
    using assms(2) by (auto simp: sorted_append)
qed

lemma clock_set_back_facts:
  "distinct (map rid (rows clock_set_back))"
  "length (rows clock_set_back) = 101"
  "max_storage_bytes clock_set_back = 524288000"
  "hd (rows clock_set_back)
     = \<lparr>rid = 1, timestamp = ''2024-05-01T11:59:30'', data = snap 1, created_at = 500\<rparr>"
  "\<forall>r \<in> set (tl (rows clock_set_back)). created_at r \<le> 100"
  by (auto simp: clock_set_back_def distinct_map inj_on_def)

lemma after15_state:
  "offline_storage after15 = \<lparr>rows = [], last_id = 15, max_storage_bytes = 1000\<rparr>"
  "webapp_url after15 = ''https://script.example/exec''"
  by (simp_all add: after15_def offline_run_def upload_def is_online_def sim_world_def fresh_sync_def
      store_offline_def store_def insert_row_def enforce_storage_limit_def snap_def
      sql_limit_def oldest_first_def delete_ids_def)

lemma after15_drain:
  "sync_offline_data (sim_world True 2000) (\<lambda>_. sim_world True 2000) after15 = Some (0, after15)"
proof -
  have "is_online (sim_world True 2000)"
    by (simp add: is_online_def sim_world_def)
  moreover have "get_pending_count (sim_world True 2000) (offline_storage after15)
      = (0, offline_storage after15)"
    by (simp add: get_pending_count_def after15_state sim_world_def)
  ultimately show ?thesis
    by (simp add: sync_offline_data_def)
qed

lemma filter_same_length: "length (filter P xs) = length xs \<Longrightarrow> filter P xs = xs"
  by (metis filter_True length_filter_less linorder_neq_iff)

lemma enforce_same_length:
  "length (rows (enforce_storage_limit w s)) = length (rows s) \<Longrightarrow> enforce_storage_limit w s = s"
  using filter_same_length [of "\<lambda>r. rid r \<notin> set (map rid (sql_limit 100 (oldest_first (rows s))))" "rows s"]
  by (auto simp: enforce_storage_limit_def delete_ids_def split: fs_stat.splits)

section \<open>The queue is drained oldest first\<close>

text \<open>
  C1, as stated, fails: the batch is ordered by \<open>created_at\<close>, the wall clock at the insert,
  not by the order of the calls. Two committed \<^verbatim>\<open>store\<close> calls on a fresh queue, the
  clock reading 10 at the first and 5 at the second (it was set back in between), are
  returned by \<^verbatim>\<open>get_pending_batch(2)\<close> in the opposite order.
\<close>

theorem fifo_counterexample:
  "fst (get_pending_batch (sim_world True 20) 2
         (store_all [(sim_world False 10, snap 1), (sim_world False 5, snap 2)] (init_storage 500)))
     = [(2, snap 2), (1, snap 1)]
   \<and> fst (store (sim_world False 10) (init_storage 500) (snap 1))
   \<and> fst (store (sim_world False 5) (snd (store (sim_world False 10) (init_storage 500) (snap 1))) (snap 2))"
  by (simp add: get_pending_batch_def sim_world_def init_storage_def store_def insert_row_def
      enforce_storage_limit_def snap_def sql_limit_def oldest_first_def)

text \<open>
  C1, amended. When the \<^verbatim>\<open>SELECT\<close> is executed, \<^verbatim>\<open>get_pending_batch\<close> returns the
  first \<open>n\<close> rows of the table sorted by \<open>created_at\<close> ascending, rows of the same second
  in insertion order; for \<open>n \<ge> 0\<close> these are at most \<open>n\<close>; and the call leaves the storage
  as it is. For every run of \<^verbatim>\<open>store\<close> calls on a fresh queue that all return
  \<^verbatim>\<open>True\<close> and whose clock readings never decrease, \<^verbatim>\<open>get_pending_batch\<close> with the
  number of calls as its size returns the snapshots in the order of the calls with the ids
  1, 2, ..., less some oldest ones (those an eviction deleted); when no limit check deleted
  a row it returns all of them.
\<close>

theorem fifo_by_created_at:
  "fst (get_pending_batch w n s)
     = (if sql_raises w Select then []
        else map (\<lambda>r. (rid r, data r)) (sql_limit n (oldest_first (rows s))))
   \<and> sorted (map created_at (oldest_first (rows s)))
   \<and> set (oldest_first (rows s)) = set (rows s)
   \<and> length (oldest_first (rows s)) = length (rows s)
   \<and> (\<forall>t. filter (\<lambda>r. created_at r = t) (oldest_first (rows s))
            = filter (\<lambda>r. created_at r = t) (rows s))
   \<and> (0 \<le> n \<longrightarrow> length (fst (get_pending_batch w n s)) \<le> nat n)
   \<and> snd (get_pending_batch w n s) = s
   \<and> (all_stored es (init_storage mb) \<and> sorted (map (\<lambda>e. now_epoch (fst e)) es)
        \<and> \<not> sql_raises w Select \<longrightarrow>
        (\<exists>k. fst (get_pending_batch w (int (length es)) (store_all es (init_storage mb)))
                = drop k (zip (map int [1..<Suc (length es)]) (map snd es))))
   \<and> (all_kept es (init_storage mb) \<and> sorted (map (\<lambda>e. now_epoch (fst e)) es)
        \<and> \<not> sql_raises w Select \<longrightarrow>
        fst (get_pending_batch w (int (length es)) (store_all es (init_storage mb)))
          = zip (map int [1..<Suc (length es)]) (map snd es))"
proof -
  let ?s = "store_all es (init_storage mb)"
  let ?all = "zip (map int [1..<Suc (length es)]) (map snd es)"
  have num: "numbered 0 es = ?all"
    using numbered_zip [of 0 es] by simp
  have batch: "fst (get_pending_batch w n s)
     = (if sql_raises w Select then []
        else map (\<lambda>r. (rid r, data r)) (sql_limit n (oldest_first (rows s))))"
    by (simp add: get_pending_batch_def)
  have ordered: "sorted (map created_at (oldest_first (rows s)))"
    "set (oldest_first (rows s)) = set (rows s)"
    "length (oldest_first (rows s)) = length (rows s)"
    by (simp_all add: oldest_first_def)
  have stable: "filter (\<lambda>r. created_at r = t) (oldest_first (rows s))
                = filter (\<lambda>r. created_at r = t) (rows s)" for t
    by (simp add: oldest_first_def sort_key_stable)
  have bound: "length (fst (get_pending_batch w n s)) \<le> nat n" if "0 \<le> n"
    using that by (simp add: get_pending_batch_def sql_limit_def)
  have same: "snd (get_pending_batch w n s) = s"
    by (simp add: get_pending_batch_def)
  have whole: "fst (get_pending_batch w (int (length es)) ?s) = map (\<lambda>r. (rid r, data r)) (rows ?s)"
    if "sorted (map created_at (rows ?s))" "length (rows ?s) \<le> length es"
      "\<not> sql_raises w Select"
    using that oldest_first_sorted [of "rows ?s"]
    by (simp add: get_pending_batch_def sql_limit_def)
  have suffix: "\<exists>k. fst (get_pending_batch w (int (length es)) ?s) = drop k ?all"
    if st: "all_stored es (init_storage mb)" and mono: "sorted (map (\<lambda>e. now_epoch (fst e)) es)"
      and sel: "\<not> sql_raises w Select"
  proof -
    have "sorted (map created_at (rows (init_storage mb)) @ map (\<lambda>e. now_epoch (fst e)) es)"
      using mono by (simp add: init_storage_def)
    from store_all_suffix [OF st ids_ok_init this]
    obtain k where k: "map (\<lambda>r. (rid r, data r)) (rows ?s) = drop k (numbered 0 es)"
      "map created_at (rows ?s) = drop k (map (\<lambda>e. now_epoch (fst e)) es)"
      by (auto simp: init_storage_def)
    have "sorted (map created_at (rows ?s))"
      unfolding k(2) using mono by (rule sorted_wrt_drop)
    moreover have "length (rows ?s) \<le> length es"
      using all_stored_length [OF st] by (simp add: init_storage_def)
    ultimately have "fst (get_pending_batch w (int (length es)) ?s) = drop k ?all"
      using whole sel k(1) num by simp
    then show ?thesis by blast
  qed
  have full: "fst (get_pending_batch w (int (length es)) ?s) = ?all"
    if kept: "all_kept es (init_storage mb)" and mono: "sorted (map (\<lambda>e. now_epoch (fst e)) es)"
      and sel: "\<not> sql_raises w Select"
  proof -
    have shape: "map (\<lambda>r. (rid r, data r)) (rows ?s) = numbered 0 es"
      "map created_at (rows ?s) = map (\<lambda>e. now_epoch (fst e)) es"
      using store_all_shape [OF kept] by (simp_all add: init_storage_def)
    have "length (rows ?s) = length es"
      using shape(2) by (metis length_map)
    then show ?thesis
      using whole sel shape mono num by simp
  qed
  show ?thesis
    using batch ordered stable bound same suffix full by blast
qed

theorem fifo_by_created_at_witness:
  "\<not> sql_raises (sim_world True 20) Select
   \<and> all_kept three_enqueues (init_storage 500)
   \<and> sorted (map (\<lambda>e. now_epoch (fst e)) three_enqueues)
   \<and> fst (get_pending_batch (sim_world True 20) 3 (store_all three_enqueues (init_storage 500)))
       = [(1, snap 1), (2, snap 2), (3, snap 3)]"
proof -
  have k: "all_kept three_enqueues (init_storage 500)"
    by (simp add: three_enqueues_def init_storage_def sim_world_def snap_def insert_row_def
        enforce_storage_limit_def)
  have m: "sorted (map (\<lambda>e. now_epoch (fst e)) three_enqueues)"
    by (simp add: three_enqueues_def sim_world_def)
  have q: "\<not> sql_raises (sim_world True 20) Select"
    by (simp add: sim_world_def)
  have "fst (get_pending_batch (sim_world True 20) (int (length three_enqueues))
               (store_all three_enqueues (init_storage 500)))
          = zip (map int [1..<Suc (length three_enqueues)]) (map snd three_enqueues)"
    using fifo_by_created_at [where w = "sim_world True 20" and es = three_enqueues and mb = 500
        and n = 0 and s = "init_storage 500"] k m q
    by blast
  then show ?thesis
    using k m q upt_three by (simp add: three_enqueues_def)
qed

section \<open>One pass of the drain loop\<close>




section \<open>What \<^verbatim>\<open>upload\<close> returns\<close>

text \<open>
  C3 does not hold of the code. \<^verbatim>\<open>upload\<close> returns a boolean, and with the probe
  offline and a working store it returns \<^verbatim>\<open>True\<close> for a snapshot that was only put in
  the queue, the same value it returns for a delivered one, so the result does not tell
  delivered from queued. The caller in \<^verbatim>\<open>demo_mode.py\<close> reads \<^verbatim>\<open>True\<close> as sent and
  \<^verbatim>\<open>False\<close> as stored offline.
\<close>

theorem upload_true_when_queued:
  "fst (upload (sim_world False 5) (fresh_sync 1000000) (snap 1))
   \<and> map data (rows (offline_storage (snd (upload (sim_world False 5) (fresh_sync 1000000) (snap 1)))))
       = [snap 1]
   \<and> upload (sim_world True 5) (fresh_sync 1000000) (snap 1) = (True, fresh_sync 1000000)"
  by (simp add: upload_def is_online_def sim_world_def fresh_sync_def snap_def store_offline_def
      store_def insert_row_def enforce_storage_limit_def upload_to_webapp_def webapp_configured_def)

section \<open>Eviction\<close>

text \<open>
  C4, as stated, fails: the limit check swallows every exception. With the file
  (600000000 bytes) above the limit of 500 MB and a \<^verbatim>\<open>DELETE\<close> that raises, it deletes
  nothing, and a \<^verbatim>\<open>store\<close> in that world leaves all three rows in the table.
\<close>

theorem eviction_ignores_failed_delete:
  "st_size evict_fails (rows ((offline_storage queued2)\<lparr>max_storage_bytes := 500 * 1024 * 1024\<rparr>))
     = FileSize 600000000
   \<and> 600000000 > max_storage_bytes ((offline_storage queued2)\<lparr>max_storage_bytes := 500 * 1024 * 1024\<rparr>)
   \<and> enforce_storage_limit evict_fails ((offline_storage queued2)\<lparr>max_storage_bytes := 500 * 1024 * 1024\<rparr>)
       = (offline_storage queued2)\<lparr>max_storage_bytes := 500 * 1024 * 1024\<rparr>
   \<and> map rid (rows (snd (store evict_fails
         ((offline_storage queued2)\<lparr>max_storage_bytes := 500 * 1024 * 1024\<rparr>) (snap 3))))
       = [1, 2, 3]"
  by (simp add: enforce_storage_limit_def evict_fails_def grown_file_def sim_world_def queued2_def
      store_def insert_row_def snap_def)

text \<open>
  C4, amended. On a table with distinct ids (the primary key): when the file is larger than
  \<^verbatim>\<open>max_storage_bytes\<close> and the \<^verbatim>\<open>DELETE\<close> is executed, \<^verbatim>\<open>_enforce_storage_limit\<close>
  removes exactly the first 100 rows in \<open>created_at\<close> order, all rows if there are fewer:
  the number of rows drops by the smaller of 100 and the number of rows, and no deleted row
  has a later \<open>created_at\<close> than a row that is kept. When the file is within the limit it
  changes nothing, and neither when the \<^verbatim>\<open>DELETE\<close> or \<^verbatim>\<open>stat\<close> raises or the file is
  missing. \<^verbatim>\<open>store\<close> runs it last, after a committed insert, and not at all when the
  insert raises. No other operation runs it: \<^verbatim>\<open>get_pending_count\<close>,
  \<^verbatim>\<open>get_pending_batch\<close> and \<^verbatim>\<open>get_storage_stats\<close> leave the storage as it is, and
  \<^verbatim>\<open>mark_uploaded\<close> keeps every row whose id it was not given.
\<close>

theorem eviction_only_in_store:
  assumes "distinct (map rid (rows s))"
  shows "(\<forall>n. st_size w (rows s) = FileSize n \<and> n > max_storage_bytes s \<and> \<not> sql_raises w Evict \<longrightarrow>
            rows (enforce_storage_limit w s)
              = filter (\<lambda>r. r \<notin> set (take 100 (oldest_first (rows s)))) (rows s)
            \<and> length (rows (enforce_storage_limit w s)) = length (rows s) - min 100 (length (rows s))
            \<and> (\<forall>r \<in> set (rows s). \<forall>r' \<in> set (rows (enforce_storage_limit w s)).
                  r \<notin> set (rows (enforce_storage_limit w s)) \<longrightarrow> created_at r \<le> created_at r'))
       \<and> (\<forall>n. st_size w (rows s) = FileSize n \<and> n \<le> max_storage_bytes s \<longrightarrow>
            enforce_storage_limit w s = s)
       \<and> (sql_raises w Evict \<or> st_size w (rows s) = StatRaises \<or> st_size w (rows s) = NoFile \<longrightarrow>
            enforce_storage_limit w s = s)
       \<and> snd (store w s d) = (case insert_row w s d of Inl e \<Rightarrow> s | Inr s' \<Rightarrow> enforce_storage_limit w s')
       \<and> snd (get_pending_count w s) = s
       \<and> snd (get_pending_batch w k s) = s
       \<and> snd (get_storage_stats w s) = s
       \<and> {r \<in> set (rows s). rid r \<notin> set ids} \<subseteq> set (rows (mark_uploaded w ids s))"
proof -
  let ?victims = "take 100 (oldest_first (rows s))"
  let ?kept = "filter (\<lambda>r. r \<notin> set ?victims) (rows s)"
  have d: "distinct (rows s)"
    using assms by (simp add: distinct_map)
  have sub: "set ?victims \<subseteq> set (rows s)"
    using set_take_subset [of 100 "oldest_first (rows s)"] by (simp add: oldest_first_props)
  have dv: "distinct ?victims"
    using d by (simp add: oldest_first_props)
  have del: "delete_ids (map rid ?victims) (rows s) = ?kept"
    using delete_victims [OF assms sub] .
  have len: "length ?kept = length (rows s) - min 100 (length (rows s))"
    using length_remove_victims [OF d sub dv] by (simp add: oldest_first_props min.commute)
  have srt: "sorted (map created_at (oldest_first (rows s)))"
    by (simp add: oldest_first_def)
  have older: "created_at r \<le> created_at r'"
    if "r \<in> set (rows s)" "r \<notin> set ?kept" "r' \<in> set ?kept" for r r'
  proof -
    have "r \<in> set ?victims"
      using that(1,2) by simp
    moreover have "r' \<in> set (oldest_first (rows s))" "r' \<notin> set ?victims"
      using that(3) by (simp_all add: oldest_first_props)
    ultimately show ?thesis
      using prefix_not_newer [OF srt, of r 100 r'] by simp
  qed
  have evict: "rows (enforce_storage_limit w s) = ?kept"
    if "st_size w (rows s) = FileSize n" "n > max_storage_bytes s" "\<not> sql_raises w Evict" for n
    using that del by (simp add: enforce_storage_limit_def sql_limit_def)
  have keep: "enforce_storage_limit w s = s"
    if "st_size w (rows s) = FileSize n" "n \<le> max_storage_bytes s" for n
    using that by (simp add: enforce_storage_limit_def)
  have swallowed: "enforce_storage_limit w s = s"
    if "sql_raises w Evict \<or> st_size w (rows s) = StatRaises \<or> st_size w (rows s) = NoFile"
    using that by (auto simp: enforce_storage_limit_def split: fs_stat.splits)
  have st: "snd (store w s d) = (case insert_row w s d of Inl e \<Rightarrow> s | Inr s' \<Rightarrow> enforce_storage_limit w s')"
    by (simp add: store_def split: sum.splits)
  have ro: "snd (get_pending_count w s) = s" "snd (get_pending_batch w k s) = s"
    "snd (get_storage_stats w s) = s"
    by (simp_all add: get_pending_count_def get_pending_batch_def get_storage_stats_def
        split: fs_stat.splits)
  have mu: "{r \<in> set (rows s). rid r \<notin> set ids} \<subseteq> set (rows (mark_uploaded w ids s))"
    by (auto simp: mark_uploaded_def delete_ids_def)
  have first: "rows (enforce_storage_limit w s) = ?kept
      \<and> length (rows (enforce_storage_limit w s)) = length (rows s) - min 100 (length (rows s))
      \<and> (\<forall>r \<in> set (rows s). \<forall>r' \<in> set (rows (enforce_storage_limit w s)).
            r \<notin> set (rows (enforce_storage_limit w s)) \<longrightarrow> created_at r \<le> created_at r')"
    if "st_size w (rows s) = FileSize n \<and> n > max_storage_bytes s \<and> \<not> sql_raises w Evict" for n
  proof -
    have e: "rows (enforce_storage_limit w s) = ?kept"
      using that evict by blast
    show ?thesis
      unfolding e using len older by blast
  qed
  show ?thesis
    using first keep swallowed st ro mu by blast
qed

theorem eviction_only_in_store_witness:
  "distinct (map rid (rows clock_set_back))
   \<and> st_size grown_file (rows clock_set_back) = FileSize 600000000
   \<and> 600000000 > max_storage_bytes clock_set_back
   \<and> \<not> sql_raises grown_file Evict
   \<and> rows (enforce_storage_limit grown_file clock_set_back)
       = [\<lparr>rid = 1, timestamp = ''2024-05-01T11:59:30'', data = snap 1, created_at = 500\<rparr>]"
proof -
  let ?w = grown_file
  let ?new = "\<lparr>rid = 1, timestamp = ''2024-05-01T11:59:30'', data = snap 1, created_at = 500\<rparr>"
  let ?after = "rows (enforce_storage_limit ?w clock_set_back)"
  note f = clock_set_back_facts
  have sz: "st_size ?w (rows clock_set_back) = FileSize 600000000" "\<not> sql_raises ?w Evict"
    by (simp_all add: grown_file_def sim_world_def)
  have over: "(600000000::int) > max_storage_bytes clock_set_back"
    using f(3) by simp
  have rs: "rows clock_set_back = ?new # tl (rows clock_set_back)"
    using f(2,4) by (cases "rows clock_set_back") auto
  from eviction_only_in_store [OF f(1), of ?w "snap 1" 0 "[]"] sz over
  have ev: "?after = filter (\<lambda>r. r \<notin> set (take 100 (oldest_first (rows clock_set_back)))) (rows clock_set_back)"
    "length ?after = length (rows clock_set_back) - min 100 (length (rows clock_set_back))"
    "\<forall>r \<in> set (rows clock_set_back). \<forall>r' \<in> set ?after. r \<notin> set ?after \<longrightarrow> created_at r \<le> created_at r'"
    by blast+
  have one: "length ?after = 1"
    using ev(2) f(2) by simp
  then obtain r' where r': "?after = [r']"
    by (cases ?after) auto
  have in_rows: "r' \<in> set (rows clock_set_back)"
    using ev(1) r' by (metis filter_is_subset list.set_intros(1) subsetD)
  have "r' = ?new"
  proof (rule ccontr)
    assume other: "r' \<noteq> ?new"
    then have "r' \<in> set (tl (rows clock_set_back))"
      using in_rows rs by (metis set_ConsD)
    then have young: "created_at r' \<le> 100"
      using f(5) by blast
    have gone: "?new \<in> set (rows clock_set_back)" "?new \<notin> set ?after"
      using rs other r' by (metis list.set_intros(1), simp)
    have "r' \<in> set ?after"
      using r' by simp
    with ev(3) gone have "created_at ?new \<le> created_at r'"
      by blast
    then show False
      using young by simp
  qed
  then show ?thesis
    using f(1) sz over r' by simp
qed

section \<open>An exception that leaves \<^verbatim>\<open>get_status\<close>\<close>

text \<open>
  C5 does not hold of the code. \<^verbatim>\<open>get_storage_stats\<close> reads
  \<^verbatim>\<open>db_path.exists()\<close> and \<^verbatim>\<open>db_path.stat()\<close> outside any \<^verbatim>\<open>try\<close>, and
  \<^verbatim>\<open>get_status\<close> calls it unguarded, so an \<^verbatim>\<open>OSError\<close> of the file system leaves
  \<^verbatim>\<open>get_status\<close> as an exception. \<^verbatim>\<open>_enforce_storage_limit\<close> guards the same
  expression with \<^verbatim>\<open>try ... except: pass\<close>.
\<close>

theorem get_status_raises:
  "fst (get_status stat_fails (fresh_sync 1000000)) = Inl OSError"
  by (simp add: get_status_def get_storage_stats_def stat_fails_def sim_world_def fresh_sync_def)

section \<open>The statistics\<close>

text \<open>
  C6, as stated, fails: the dictionary of \<^verbatim>\<open>get_storage_stats\<close> has no key
  \<^verbatim>\<open>storage_used_bytes\<close>; its keys are \<^verbatim>\<open>pending_records\<close>, \<^verbatim>\<open>storage_used_mb\<close> and
  \<^verbatim>\<open>storage_limit_mb\<close>, and the values are megabytes rounded to two decimals: a file of
  12288 bytes is reported as 0.01 and the limit of 500 MB as 500.00.
\<close>

theorem stats_fields_counterexample:
  "fst (get_storage_stats ((sim_world True 5)\<lparr>st_size := (\<lambda>_. FileSize 12288)\<rparr>) (init_storage 500))
     = Inr [(''pending_records'', PInt 0), (''storage_used_mb'', PHundredths 1),
            (''storage_limit_mb'', PHundredths 50000)]
   \<and> map_of [(''pending_records'', PInt 0), (''storage_used_mb'', PHundredths 1),
              (''storage_limit_mb'', PHundredths 50000)] ''storage_used_bytes'' = None"
  by (simp add: get_storage_stats_def stats_dict_def sim_world_def init_storage_def
      get_pending_count_def mb_hundredths_def round_half_even_def Let_def)

text \<open>
  C6, amended. When \<^verbatim>\<open>stat\<close> does not raise, \<^verbatim>\<open>get_storage_stats\<close> returns
  \<^verbatim>\<open>pending_records\<close>, \<^verbatim>\<open>storage_used_mb\<close> and \<^verbatim>\<open>storage_limit_mb\<close>, the last two in
  megabytes rounded to two decimals (0 for a missing file), and \<^verbatim>\<open>get_status\<close> returns
  \<^verbatim>\<open>online\<close>, \<^verbatim>\<open>webapp_configured\<close> and the same three entries; neither changes the
  state.
\<close>

theorem stats_report_megabytes:
  assumes "st_size w (rows (offline_storage c)) \<noteq> StatRaises"
  shows "get_storage_stats w (offline_storage c) =
           (Inr [(''pending_records'', PInt (fst (get_pending_count w (offline_storage c)))),
                 (''storage_used_mb'', PHundredths (mb_hundredths
                    (case st_size w (rows (offline_storage c)) of FileSize n \<Rightarrow> n | _ \<Rightarrow> 0))),
                 (''storage_limit_mb'', PHundredths (mb_hundredths (max_storage_bytes (offline_storage c))))],
            offline_storage c)
       \<and> get_status w c =
           (Inr [(''online'', PBool (is_online w)),
                 (''webapp_configured'', PBool (webapp_configured c)),
                 (''pending_records'', PInt (fst (get_pending_count w (offline_storage c)))),
                 (''storage_used_mb'', PHundredths (mb_hundredths
                    (case st_size w (rows (offline_storage c)) of FileSize n \<Rightarrow> n | _ \<Rightarrow> 0))),
                 (''storage_limit_mb'', PHundredths (mb_hundredths (max_storage_bytes (offline_storage c))))],
            c)"
  using assms
  by (cases "st_size w (rows (offline_storage c))")
     (simp_all add: get_storage_stats_def get_status_def stats_dict_def)

theorem stats_report_megabytes_witness:
  "st_size (sim_world True 5) (rows (offline_storage queued2)) \<noteq> StatRaises
   \<and> get_status (sim_world True 5) queued2 =
       (Inr [(''online'', PBool True), (''webapp_configured'', PBool True),
             (''pending_records'', PInt 2), (''storage_used_mb'', PHundredths 1),
             (''storage_limit_mb'', PHundredths 95)], queued2)"
proof -
  have h: "st_size (sim_world True 5) (rows (offline_storage queued2)) \<noteq> StatRaises"
    by (simp add: sim_world_def)
  have v: "st_size (sim_world True 5) (rows (offline_storage queued2)) = FileSize 12288"
    "is_online (sim_world True 5)" "webapp_configured queued2"
    "fst (get_pending_count (sim_world True 5) (offline_storage queued2)) = 2"
    "max_storage_bytes (offline_storage queued2) = 1000000"
    by (simp_all add: sim_world_def queued2_def is_online_def webapp_configured_def fresh_sync_def
        get_pending_count_def)
  have r: "mb_hundredths 12288 = 1" "mb_hundredths 1000000 = 95"
    by (simp_all add: mb_hundredths_def round_half_even_def Let_def)
  show ?thesis
    using stats_report_megabytes [OF h] h v r by simp
qed

section \<open>The overflow scenario\<close>

text \<open>
  C7, as stated, fails. With \<^verbatim>\<open>max_storage_bytes = 1000\<close> the database file, 12288
  bytes from the start, is above the limit at every \<^verbatim>\<open>store\<close>. Fifteen snapshots
  uploaded while offline leave no pending row, not about 10; the sixth snapshot, which the
  claim keeps, is gone; and the drain that follows does not return 10.
\<close>

theorem scenario_counterexample:
  "fst (get_pending_count (sim_world True 2000) (offline_storage after15)) = 0
   \<and> 6 \<notin> rid ` set (rows (offline_storage after15))
   \<and> map_option fst (sync_offline_data (sim_world True 2000) (\<lambda>_. sim_world True 2000) after15)
       \<noteq> Some 10"
  using after15_drain
  by (simp add: get_pending_count_def after15_state sim_world_def)

text \<open>
  C7, amended. In that scenario every upload finds the file above the limit and its
  eviction, which takes up to 100 rows, deletes every row of the table, the one just
  inserted included: the first upload returns \<^verbatim>\<open>True\<close> and leaves the table empty, and
  after the fifteenth the table is empty with the id counter at 15. With the probe online
  and a web app that accepts, \<^verbatim>\<open>sync_offline_data\<close> then returns 0 and the number of
  pending rows stays 0.
\<close>

theorem scenario_discards_every_record:
  "st_size (sim_world False 1001) [] = FileSize 12288
   \<and> upload (sim_world False 1001) (fresh_sync 1000) (snap 1)
       = (True, (fresh_sync 1000)\<lparr>offline_storage :=
                  \<lparr>rows = [], last_id = 1, max_storage_bytes = 1000\<rparr>\<rparr>)
   \<and> offline_storage after15 = \<lparr>rows = [], last_id = 15, max_storage_bytes = 1000\<rparr>
   \<and> sync_offline_data (sim_world True 2000) (\<lambda>_. sim_world True 2000) after15 = Some (0, after15)
   \<and> fst (get_pending_count (sim_world True 2000) (offline_storage after15)) = 0"
proof -
  have one: "upload (sim_world False 1001) (fresh_sync 1000) (snap 1)
       = (True, (fresh_sync 1000)\<lparr>offline_storage :=
                  \<lparr>rows = [], last_id = 1, max_storage_bytes = 1000\<rparr>\<rparr>)"
    by (simp add: upload_def is_online_def sim_world_def fresh_sync_def
      store_offline_def store_def insert_row_def enforce_storage_limit_def snap_def
      sql_limit_def oldest_first_def delete_ids_def)
  show ?thesis
    using one after15_drain
    by (simp add: after15_state get_pending_count_def sim_world_def)
qed

section \<open>Removal is idempotent\<close>

text \<open>
  C8. \<^verbatim>\<open>mark_uploaded\<close> is idempotent and harmless on absent ids: under the same behaviour
  of the backing store a second call with the same ids changes nothing; after a delete that
  was executed, a repeated call changes nothing whatever the backing store does; a call
  whose ids are all absent from the table leaves the storage as it is; and a call deletes no
  row whose id is not in the list. The call returns a storage in every case: its
  \<^verbatim>\<open>try ... except Exception\<close> turns a failure of the statement into a logged message.
\<close>

theorem mark_uploaded_idempotent:
  "mark_uploaded w ids (mark_uploaded w ids s) = mark_uploaded w ids s
   \<and> mark_uploaded w' ids (mark_uploaded (w\<lparr>sql_raises := \<lambda>_. False\<rparr>) ids s)
       = mark_uploaded (w\<lparr>sql_raises := \<lambda>_. False\<rparr>) ids s
   \<and> (set ids \<inter> rid ` set (rows s) = {} \<longrightarrow> mark_uploaded w ids s = s)
   \<and> {r \<in> set (rows s). rid r \<notin> set ids} \<subseteq> set (rows (mark_uploaded w ids s))"
proof -
  have absent: "filter (\<lambda>r. rid r \<notin> set ids) (rows s) = rows s"
    if "set ids \<inter> rid ` set (rows s) = {}"
    using that by (intro filter_True) auto
  show ?thesis
    using absent by (auto simp: mark_uploaded_def delete_ids_def)
qed

theorem mark_uploaded_idempotent_witness:
  "set [7, 8] \<inter> rid ` set (rows (offline_storage queued2)) = {}
   \<and> mark_uploaded (sim_world True 0) [7, 8] (offline_storage queued2) = offline_storage queued2"
proof -
  have h: "set [7, 8] \<inter> rid ` set (rows (offline_storage queued2)) = {}"
    by (simp add: queued2_def)
  show ?thesis
    using mark_uploaded_idempotent [of "sim_world True 0" "[7, 8]" "offline_storage queued2"
        "sim_world True 0"] h
    by simp
qed

section \<open>When \<^verbatim>\<open>upload\<close> returns \<^verbatim>\<open>True\<close>\<close>

text \<open>
  C9, as stated, fails: a result \<^verbatim>\<open>True\<close> does not say that the snapshot is kept. With
  the probe offline, a limit of 500 MB and a database file that has grown to 600000000
  bytes, \<^verbatim>\<open>upload\<close> on an empty queue commits the insert, the limit check at the end of
  \<^verbatim>\<open>store\<close> deletes the row again, and \<^verbatim>\<open>upload\<close> returns \<^verbatim>\<open>True\<close> with the
  table empty.
\<close>

theorem upload_true_but_evicted:
  "\<not> is_online grown_file
   \<and> fst (upload grown_file (fresh_sync (500 * 1024 * 1024)) (snap 1))
   \<and> rows (offline_storage (snd (upload grown_file (fresh_sync (500 * 1024 * 1024)) (snap 1)))) = []"
  by (simp add: upload_def is_online_def grown_file_def sim_world_def fresh_sync_def
      store_offline_def store_def insert_row_def enforce_storage_limit_def snap_def
      sql_limit_def oldest_first_def delete_ids_def)

text \<open>
  C9, amended. \<^verbatim>\<open>upload\<close> returns \<^verbatim>\<open>True\<close> and leaves the queue alone when the
  probe is online and the web app accepts the snapshot; otherwise it returns \<^verbatim>\<open>True\<close>
  when the insert into the offline table is committed, and then the table is the old one
  with the new row (its \<open>data\<close> the snapshot) appended and the limit check applied; it
  returns \<^verbatim>\<open>False\<close>, with the queue unchanged, exactly when the snapshot was not
  accepted by the web app (or the probe was offline) and the insert raised. When the
  result is \<^verbatim>\<open>True\<close> without a delivery and the table has grown by one row, the
  snapshot is the last row and the earlier rows are all there.
\<close>

theorem upload_true_iff:
  "upload w c d =
     (if is_online w \<and> upload_to_webapp w c [d] then (True, c)
      else case bind_text (case map_of d ''timestamp'' of None \<Rightarrow> JStr (now_iso w) | Some v \<Rightarrow> v) of
             Inl e \<Rightarrow> (False, c)
           | Inr ts \<Rightarrow>
               if sql_raises w Insert then (False, c)
               else (True, c\<lparr>offline_storage := enforce_storage_limit w
                       ((offline_storage c)\<lparr>rows := rows (offline_storage c) @
                            [\<lparr>rid = last_id (offline_storage c) + 1, timestamp = ts, data = d,
                              created_at = now_epoch w\<rparr>],
                          last_id := last_id (offline_storage c) + 1\<rparr>)\<rparr>))
   \<and> (fst (upload w c d) \<longleftrightarrow>
        (is_online w \<and> upload_to_webapp w c [d]) \<or> \<not> isl (insert_row w (offline_storage c) d))
   \<and> (\<not> fst (upload w c d) \<longleftrightarrow>
        \<not> (is_online w \<and> upload_to_webapp w c [d]) \<and> isl (insert_row w (offline_storage c) d))
   \<and> (\<not> (is_online w \<and> upload_to_webapp w c [d]) \<and> fst (upload w c d)
        \<and> length (rows (offline_storage (snd (upload w c d)))) = length (rows (offline_storage c)) + 1
        \<longrightarrow> rows (offline_storage (snd (upload w c d))) \<noteq> []
          \<and> data (last (rows (offline_storage (snd (upload w c d))))) = d
          \<and> butlast (rows (offline_storage (snd (upload w c d)))) = rows (offline_storage c))"
proof -
  let ?s = "offline_storage c"
  let ?ins = "\<lambda>ts. ?s\<lparr>rows := rows ?s @ [\<lparr>rid = last_id ?s + 1, timestamp = ts, data = d,
                              created_at = now_epoch w\<rparr>], last_id := last_id ?s + 1\<rparr>"
  have eq: "upload w c d =
     (if is_online w \<and> upload_to_webapp w c [d] then (True, c)
      else case bind_text (case map_of d ''timestamp'' of None \<Rightarrow> JStr (now_iso w) | Some v \<Rightarrow> v) of
             Inl e \<Rightarrow> (False, c)
           | Inr ts \<Rightarrow>
               if sql_raises w Insert then (False, c)
               else (True, c\<lparr>offline_storage := enforce_storage_limit w (?ins ts)\<rparr>))"
    by (simp add: upload_def store_offline_def store_def insert_row_def split: sum.splits)
  have iff: "fst (upload w c d) \<longleftrightarrow>
        (is_online w \<and> upload_to_webapp w c [d]) \<or> \<not> isl (insert_row w ?s d)"
    by (auto simp: upload_def store_offline_def store_def split: sum.splits)
  have newest: "rows (offline_storage (snd (upload w c d))) \<noteq> []
          \<and> data (last (rows (offline_storage (snd (upload w c d))))) = d
          \<and> butlast (rows (offline_storage (snd (upload w c d)))) = rows ?s"
    if nd: "\<not> (is_online w \<and> upload_to_webapp w c [d])" and ok: "fst (upload w c d)"
      and len: "length (rows (offline_storage (snd (upload w c d)))) = length (rows ?s) + 1"
  proof -
    from nd ok eq obtain ts where
      up: "upload w c d = (True, c\<lparr>offline_storage := enforce_storage_limit w (?ins ts)\<rparr>)"
      by (auto split: sum.splits if_splits)
    then have "length (rows (enforce_storage_limit w (?ins ts))) = length (rows (?ins ts))"
      using len by simp
    then have "enforce_storage_limit w (?ins ts) = ?ins ts"
      by (rule enforce_same_length)
    then show ?thesis
      using up by simp
  qed
  show ?thesis
    using eq iff newest by blast
qed

theorem upload_true_iff_witness:
  "\<not> is_online ((sim_world False 5)\<lparr>sql_raises := (\<lambda>_. True)\<rparr>)
   \<and> isl (insert_row ((sim_world False 5)\<lparr>sql_raises := (\<lambda>_. True)\<rparr>) (offline_storage queued2) (snap 3))
   \<and> upload ((sim_world False 5)\<lparr>sql_raises := (\<lambda>_. True)\<rparr>) queued2 (snap 3) = (False, queued2)
   \<and> \<not> isl (insert_row (sim_world False 5) (offline_storage queued2) (snap 3))
   \<and> fst (upload (sim_world False 5) queued2 (snap 3))
   \<and> length (rows (offline_storage (snd (upload (sim_world False 5) queued2 (snap 3))))) = 3
   \<and> data (last (rows (offline_storage (snd (upload (sim_world False 5) queued2 (snap 3)))))) = snap 3"
proof -
  let ?bad = "(sim_world False 5)\<lparr>sql_raises := (\<lambda>_. True)\<rparr>"
  let ?w = "sim_world False 5"
  have off: "\<not> is_online ?bad" "\<not> is_online ?w"
    by (simp_all add: is_online_def sim_world_def)
  have bad: "insert_row ?bad (offline_storage queued2) (snap 3) = Inl SqliteError"
    by (simp add: insert_row_def snap_def sim_world_def)
  have good: "\<not> isl (insert_row ?w (offline_storage queued2) (snap 3))"
    by (simp add: insert_row_def snap_def sim_world_def)
  have lost: "upload ?bad queued2 (snap 3) = (False, queued2)"
    using conjunct1 [OF upload_true_iff [of ?bad queued2 "snap 3"]] off(1)
    by (simp add: snap_def sim_world_def)
  have kept: "fst (upload ?w queued2 (snap 3))"
    using upload_true_iff [of ?w queued2 "snap 3"] good by blast
  have len: "length (rows (offline_storage (snd (upload ?w queued2 (snap 3)))))
      = length (rows (offline_storage queued2)) + 1"
    by (simp add: upload_def is_online_def sim_world_def store_offline_def store_def insert_row_def
        snap_def enforce_storage_limit_def queued2_def)
  have "data (last (rows (offline_storage (snd (upload ?w queued2 (snap 3)))))) = snap 3"
    using upload_true_iff [of ?w queued2 "snap 3"] off(2) kept len by blast
  moreover have "length (rows (offline_storage queued2)) = 2"
    by (simp add: queued2_def)
  ultimately show ?thesis
    using off(1) bad good lost kept len by simp
qed

section \<open>The timestamp column\<close>

text \<open>
  C10. When the insert is executed, \<^verbatim>\<open>store\<close> of a snapshot without a \<^verbatim>\<open>timestamp\<close>
  key returns \<^verbatim>\<open>True\<close> and the row it inserts carries the current time
  \<^verbatim>\<open>datetime.now().isoformat()\<close> as its timestamp; for a snapshot whose
  \<^verbatim>\<open>timestamp\<close> is a string, as the data model has it, the row carries that string. In
  both cases the \<^verbatim>\<open>data\<close> column is the snapshot as given.
\<close>

theorem store_timestamp_default:
  assumes "\<not> sql_raises w Insert"
  shows "(map_of d ''timestamp'' = None \<longrightarrow>
            store w s d = (True, enforce_storage_limit w
               (s\<lparr>rows := rows s @ [\<lparr>rid = last_id s + 1, timestamp = now_iso w, data = d,
                                       created_at = now_epoch w\<rparr>],
                  last_id := last_id s + 1\<rparr>)))
       \<and> (\<forall>t. map_of d ''timestamp'' = Some (JStr t) \<longrightarrow>
            store w s d = (True, enforce_storage_limit w
               (s\<lparr>rows := rows s @ [\<lparr>rid = last_id s + 1, timestamp = t, data = d,
                                       created_at = now_epoch w\<rparr>],
                  last_id := last_id s + 1\<rparr>)))"
  using assms by (simp add: store_def insert_row_def)

theorem store_timestamp_default_witness:
  "\<not> sql_raises (sim_world False 5) Insert
   \<and> map_of no_timestamp ''timestamp'' = None
   \<and> map timestamp (rows (snd (store (sim_world False 5) (init_storage 500) no_timestamp)))
       = [''2024-05-01T12:00:00'']
   \<and> map_of (snap 1) ''timestamp'' = Some (JStr ''2024-05-01T11:59:30'')
   \<and> map timestamp (rows (snd (store (sim_world False 5) (init_storage 500) (snap 1))))
       = [''2024-05-01T11:59:30'']"
proof -
  have h: "\<not> sql_raises (sim_world False 5) Insert"
    by (simp add: sim_world_def)
  have k: "map_of no_timestamp ''timestamp'' = None"
    "map_of (snap 1) ''timestamp'' = Some (JStr ''2024-05-01T11:59:30'')"
    by (simp_all add: no_timestamp_def snap_def)
  have e: "enforce_storage_limit (sim_world False 5)
             (init_storage 500\<lparr>rows := rows (init_storage 500) @ [r], last_id := last_id (init_storage 500) + 1\<rparr>)
           = init_storage 500\<lparr>rows := rows (init_storage 500) @ [r], last_id := last_id (init_storage 500) + 1\<rparr>" for r
    by (simp add: enforce_storage_limit_def sim_world_def init_storage_def)
  have n: "now_iso (sim_world False 5) = ''2024-05-01T12:00:00''"
    by (simp add: sim_world_def)
  show ?thesis
    using store_timestamp_default [OF h, of no_timestamp "init_storage 500"]
      store_timestamp_default [OF h, of "snap 1" "init_storage 500"] h k e n
    by (simp add: init_storage_def)
qed

end
